theory Spec2Isabelle
  imports Complex_Main "HOL-Library.AList" "HOL-Library.Multiset"
begin

section \<open>Strings\<close>

text \<open>
  A JavaScript string is modelled as a \<^typ>\<open>string\<close>, one \<^typ>\<open>char\<close> per
  code unit, so the strings of the model are those of code units below 256 (U+0000 to
  U+00FF). On these \<open>toLowerCase\<close> maps \<open>A\<close>..\<open>Z\<close> to \<open>a\<close>..\<open>z\<close> and the capital
  letters U+00C0..U+00DE (all but the sign U+00D7) to the letters 32 places further,
  and leaves every other code unit as it is. The class \<open>\s\<close> is the six ASCII
  white-space characters and the no-break space U+00A0, and \<open>\W\<close> is everything but
  \<open>[A-Za-z0-9_]\<close>.
\<close>

definition toLowerCase_char :: "char \<Rightarrow> char" where
  "toLowerCase_char c =
     (let n = (of_char c :: nat)
      in if (65 \<le> n \<and> n \<le> 90) \<or> (192 \<le> n \<and> n \<le> 222 \<and> n \<noteq> 215) then char_of (n + 32)
         else c)"

definition toLowerCase :: "string \<Rightarrow> string" where
  "toLowerCase s = map toLowerCase_char s"

fun starts_with :: "string \<Rightarrow> string \<Rightarrow> bool" where
  "starts_with s [] = True"
| "starts_with [] (k # ks) = False"
| "starts_with (c # cs) (k # ks) = (c = k \<and> starts_with cs ks)"

text \<open>
  \<open>s.includes(k)\<close>: \<open>k\<close> occurs in \<open>s\<close> at some position. (The name \<open>includes\<close> is
  a keyword of the theory language.)
\<close>

fun js_includes :: "string \<Rightarrow> string \<Rightarrow> bool" where
  "js_includes [] k = (k = [])"
| "js_includes (c # cs) k = (starts_with (c # cs) k \<or> js_includes cs k)"

text \<open>\<open>s.split('\n')\<close>: the pieces between the separators; never an empty array.\<close>

fun split_on :: "char \<Rightarrow> string \<Rightarrow> string list" where
  "split_on d [] = [[]]"
| "split_on d (c # cs) =
     (if c = d then [] # split_on d cs
      else (case split_on d cs of
              [] \<Rightarrow> [[c]]
            | piece # pieces \<Rightarrow> (c # piece) # pieces))"

text \<open>The characters of the class \<open>\s\<close>.\<close>

definition is_space :: "char \<Rightarrow> bool" where
  "is_space c =
     (c \<in> set [CHR 0x20, CHR 0x09, CHR 0x0A, CHR 0x0B, CHR 0x0C, CHR 0x0D, CHR 0xA0])"

text \<open>The characters the pattern \<open>.\<close> does not match.\<close>

definition is_line_terminator :: "char \<Rightarrow> bool" where
  "is_line_terminator c = (c = CHR 0x0A \<or> c = CHR 0x0D)"


section \<open>The scrape API route (pages/api/scrape.ts)\<close>

datatype category = AI | Funding | Product | Regulation | Other

subsection \<open>categorizeHeadline\<close>

definition categorizeHeadline :: "string \<Rightarrow> category" where
  "categorizeHeadline headline =
     (let lower = toLowerCase headline in
      if js_includes lower ''ai'' \<or> js_includes lower ''artificial intelligence''
         \<or> js_includes lower ''machine learning'' \<or> js_includes lower ''chatgpt''
         \<or> js_includes lower ''openai'' then AI
      else if js_includes lower ''funding'' \<or> js_includes lower ''investment''
         \<or> js_includes lower ''raises'' \<or> js_includes lower ''series''
         \<or> js_includes lower ''venture'' then Funding
      else if js_includes lower ''product'' \<or> js_includes lower ''launch''
         \<or> js_includes lower ''release'' \<or> js_includes lower ''update''
         \<or> js_includes lower ''feature'' then Product
      else if js_includes lower ''regulation'' \<or> js_includes lower ''policy''
         \<or> js_includes lower ''government'' \<or> js_includes lower ''legal''
         \<or> js_includes lower ''lawsuit'' then Regulation
      else Other)"

subsection \<open>extractCompanyFromHeadline\<close>

definition companies :: "string list" where
  "companies = [''Microsoft'', ''Google'', ''Apple'', ''Amazon'', ''Meta'', ''Tesla'',
     ''OpenAI'', ''Anthropic'', ''SpaceX'', ''Uber'', ''Airbnb'', ''Netflix'', ''X'',
     ''TikTok'', ''ByteDance'']"

text \<open>The \<open>for\<close> loop over the company names, returning at the first hit.\<close>

fun scan_companies :: "string \<Rightarrow> string list \<Rightarrow> string option" where
  "scan_companies headline [] = None"
| "scan_companies headline (name # names) =
     (if js_includes (toLowerCase headline) (toLowerCase name) then Some name
      else scan_companies headline names)"

definition extractCompanyFromHeadline :: "string \<Rightarrow> string option" where
  "extractCompanyFromHeadline headline = scan_companies headline companies"

subsection \<open>parseHeadlinesFromMarkdown\<close>

record Article =
  headline :: string
  company :: "string option"
  category :: category

text \<open>
  \<open>line.match(/^#{1,4}\s+\[(.+?)\]/)\<close>, giving the first capture group: one to four
  \<open>#\<close> at the start of the line, at least one white-space character, an opening
  bracket, and the shortest non-empty run of characters (none a line terminator) that
  a closing bracket follows. Neither \<open>#\<close> nor \<open>[\<close> is white space, so backtracking
  of the two greedy quantifiers finds no other match.
\<close>

definition headlineMatch :: "string \<Rightarrow> string option" where
  "headlineMatch line =
     (let hashes = takeWhile (\<lambda>c. c = CHR ''#'') line;
          after_hashes = dropWhile (\<lambda>c. c = CHR ''#'') line;
          spaces = takeWhile is_space after_hashes;
          after_spaces = dropWhile is_space after_hashes
      in if 1 \<le> length hashes \<and> length hashes \<le> 4 \<and> spaces \<noteq> [] then
           (case after_spaces of
              b # c # cs \<Rightarrow>
                if b = CHR ''['' \<and> \<not> is_line_terminator c then
                  (let inside = (\<lambda>x. x \<noteq> CHR '']'' \<and> \<not> is_line_terminator x) in
                   case dropWhile inside cs of
                     e # _ \<Rightarrow> if e = CHR '']'' then Some (c # takeWhile inside cs) else None
                   | [] \<Rightarrow> None)
                else None
            | _ \<Rightarrow> None)
         else None)"

text \<open>
  The loop over the lines, with the array \<open>articles\<close> as the state: a matching line
  appends an article, and the loop is left once the array holds five.
\<close>

fun scan_lines :: "Article list \<Rightarrow> string list \<Rightarrow> Article list" where
  "scan_lines articles [] = articles"
| "scan_lines articles (line # lines) =
     (case headlineMatch line of
        None \<Rightarrow> scan_lines articles lines
      | Some h \<Rightarrow>
          (let articles' = articles @
                 [\<lparr>headline = h, company = extractCompanyFromHeadline h,
                   category = categorizeHeadline h\<rparr>]
           in if 5 \<le> length articles' then articles' else scan_lines articles' lines))"

definition parseHeadlinesFromMarkdown :: "string \<Rightarrow> Article list" where
  "parseHeadlinesFromMarkdown markdown = scan_lines [] (split_on (CHR 0x0A) markdown)"

subsection \<open>generateMockData\<close>

record ScrapeResponse =
  success :: bool
  articles :: "Article list option"
  error :: "string option"

definition generateMockData :: "Article list" where
  "generateMockData =
     [\<lparr>headline = ''OpenAI announces new GPT-5 model with improved reasoning capabilities'',
       company = Some ''OpenAI'', category = AI\<rparr>,
      \<lparr>headline = ''Series A funding round raises $50M for fintech startup Stripe competitor'',
       company = None, category = Funding\<rparr>,
      \<lparr>headline = ''Apple releases iOS 18 with enhanced privacy features'',
       company = Some ''Apple'', category = Product\<rparr>,
      \<lparr>headline = ''EU proposes new AI regulations for tech companies'',
       company = None, category = Regulation\<rparr>,
      \<lparr>headline = ''Tesla CEO discusses future of electric vehicle market'',
       company = Some ''Tesla'', category = Other\<rparr>]"

subsection \<open>handler\<close>

text \<open>
  The two calls to the extraction service are the handler's only effects. Each is an
  awaited \<open>axios.post\<close>: its promise is rejected (no response, or a status outside
  2xx such as 401) or resolved with the response. The outcomes are inputs of the
  model, and the handler returns the calls it made beside its response.

  A resolved response is read as the schema the handler sends describes it:
  \<open>response.data.data\<close> is an array (empty when a level is missing) whose elements hold
  \<open>extract.articles\<close> or not, and every field of an article may be missing. An empty
  string is falsy, like a missing field.
\<close>

datatype 'a outcome = Rejected | Resolved 'a

datatype api_call = ExtractCall | ScrapeCall

record raw_article =
  raw_headline :: "string option"
  raw_company :: "string option"
  raw_category :: "category option"

definition truthy :: "string option \<Rightarrow> bool" where
  "truthy v = (v \<noteq> None \<and> v \<noteq> Some [])"

definition from_extract :: "raw_article \<Rightarrow> Article" where
  "from_extract article =
     \<lparr>headline = (if truthy (raw_headline article) then the (raw_headline article)
                   else ''Untitled Article''),
      company = (if truthy (raw_company article) then raw_company article else None),
      category = (case raw_category article of Some c \<Rightarrow> c | None \<Rightarrow> Other)\<rparr>"

text \<open>
  The articles of a resolved extraction response: those of the first element of
  \<open>response.data.data\<close>, if it has one that holds \<open>extract.articles\<close>.
\<close>

definition extracted_articles :: "raw_article list option list \<Rightarrow> Article list" where
  "extracted_articles data =
     (case data of
        [] \<Rightarrow> []
      | item # _ \<Rightarrow> (case item of None \<Rightarrow> [] | Some raws \<Rightarrow> map from_extract raws))"

definition mock_response :: "nat \<times> ScrapeResponse" where
  "mock_response = (200, \<lparr>success = True, articles = Some generateMockData, error = None\<rparr>)"

definition handler ::
  "string \<Rightarrow> string option \<Rightarrow> raw_article list option list outcome \<Rightarrow> string option outcome
     \<Rightarrow> (nat \<times> ScrapeResponse) \<times> api_call list" where
  "handler method firecrawlApiKey extract_result scrape_result =
     (if method \<noteq> ''POST'' then
        ((405, \<lparr>success = False, articles = None, error = Some ''Method not allowed''\<rparr>), [])
      else if \<not> truthy firecrawlApiKey then
        ((500, \<lparr>success = False, articles = None,
                error = Some ''FireCrawl API key not configured. Please add FIRECRAWL_API_KEY to your environment variables.''\<rparr>), [])
      else
        (case extract_result of
           Rejected \<Rightarrow> (mock_response, [ExtractCall])
         | Resolved data \<Rightarrow>
             (let extracted = extracted_articles data
              in if extracted = [] then
                   (case scrape_result of
                      Rejected \<Rightarrow> (mock_response, [ExtractCall, ScrapeCall])
                    | Resolved markdown \<Rightarrow>
                        (let parsed =
                               (if truthy markdown
                                then take 5 (parseHeadlinesFromMarkdown (the markdown))
                                else extracted)
                         in ((200, \<lparr>success = True,
                                    articles = Some (if parsed \<noteq> [] then parsed
                                                     else generateMockData),
                                    error = None\<rparr>),
                             [ExtractCall, ScrapeCall])))
                 else ((200, \<lparr>success = True, articles = Some extracted, error = None\<rparr>),
                       [ExtractCall]))))"


section \<open>The news page (pages/index.tsx)\<close>

text \<open>
  The three state hooks of the page (\<open>articles\<close> and \<open>error\<close> as \<open>shown_articles\<close> and
  \<open>shown_error\<close>), and \<open>fetchNews\<close> as a function of the outcome of its \<open>axios.post\<close>
  to the route: rejected when there is no response, and also when the response's
  status is outside 2xx.
\<close>

record page_state =
  shown_articles :: "Article list"
  loading :: bool
  shown_error :: "string option"

definition fetchNews :: "page_state \<Rightarrow> (nat \<times> ScrapeResponse) outcome \<Rightarrow> page_state" where
  "fetchNews st result =
     (case result of
        Rejected \<Rightarrow>
          st\<lparr>loading := False, shown_error := Some ''An error occurred while fetching news''\<rparr>
      | Resolved response \<Rightarrow>
          (let body = snd response in
           if 200 \<le> fst response \<and> fst response < 300 then
             (if success body \<and> articles body \<noteq> None then
                st\<lparr>shown_articles := the (articles body), loading := False,
                   shown_error := None\<rparr>
              else
                st\<lparr>loading := False,
                   shown_error := Some (if truthy (error body) then the (error body)
                                        else ''Failed to fetch news'')\<rparr>)
           else
             st\<lparr>loading := False,
                shown_error := Some (if truthy (error body) then the (error body)
                                     else ''An error occurred while fetching news'')\<rparr>))"


section \<open>The dashboard (pages/dashboard.tsx)\<close>

text \<open>The interface \<open>NewsArticle\<close>; its field \<open>id\<close> is \<open>ident\<close> here.\<close>

record NewsArticle =
  ident :: int
  title :: string
  url :: string
  topic :: string
  published_date :: string
  created_at :: string

subsection \<open>Objects used as counters\<close>

text \<open>
  \<open>processAnalytics\<close> counts with \<open>acc[key] = (acc[key] || 0) + 1\<close> on an object that
  starts as \<open>{}\<close>. The object's own properties are an association list in creation
  order. A key that no own property has is looked up in \<open>Object.prototype\<close>: for the
  name of one of its functions the value read is that function, which is truthy, and
  adding 1 to it gives a string, the function's source text followed by \<open>1\<close>; every
  later increment appends another \<open>1\<close>. For \<open>__proto__\<close> the value read is the
  prototype object, and the assignment of the resulting string is ignored by the
  setter, so that no property is created.
\<close>

definition object_prototype_functions :: "string list" where
  "object_prototype_functions =
     [''constructor'', ''__defineGetter__'', ''__defineSetter__'', ''hasOwnProperty'',
      ''__lookupGetter__'', ''__lookupSetter__'', ''isPrototypeOf'', ''propertyIsEnumerable'',
      ''toString'', ''valueOf'', ''toLocaleString'']"

text \<open>
  \<open>NativeText f n\<close> is the source text of the built-in function \<open>Object.prototype[f]\<close>
  followed by \<open>n\<close> characters \<open>1\<close>.
\<close>

datatype count_value = Count nat | NativeText string nat

definition increment :: "(string \<times> count_value) list \<Rightarrow> string \<Rightarrow> (string \<times> count_value) list" where
  "increment acc key =
     (case map_of acc key of
        Some (Count n) \<Rightarrow> AList.update key (Count (n + 1)) acc
      | Some (NativeText f n) \<Rightarrow> AList.update key (NativeText f (n + 1)) acc
      | None \<Rightarrow>
          if key = ''__proto__'' then acc
          else if key \<in> set object_prototype_functions then acc @ [(key, NativeText key 1)]
          else acc @ [(key, Count 1)])"

text \<open>\<open>keys.reduce((acc, key) => { acc[key] = (acc[key] || 0) + 1; return acc }, {})\<close>\<close>

definition count_keys :: "string list \<Rightarrow> (string \<times> count_value) list" where
  "count_keys keys = foldl increment [] keys"

text \<open>
  \<open>Object.entries\<close> lists the properties whose key is an array index (a canonical
  decimal numeral below \<open>2^32 - 1\<close>) first, in ascending numeric order, and then the
  others in creation order.
\<close>

definition is_digit :: "char \<Rightarrow> bool" where
  "is_digit c = (48 \<le> (of_char c :: nat) \<and> (of_char c :: nat) \<le> 57)"

definition decimal :: "string \<Rightarrow> int" where
  "decimal k = foldl (\<lambda>n c. 10 * n + (of_char c - 48)) 0 k"

definition is_array_index :: "string \<Rightarrow> bool" where
  "is_array_index k =
     (k \<noteq> [] \<and> list_all is_digit k \<and> (hd k \<noteq> CHR ''0'' \<or> k = ''0'') \<and> decimal k \<le> 4294967294)"

definition object_entries :: "(string \<times> 'v) list \<Rightarrow> (string \<times> 'v) list" where
  "object_entries props =
     sort_key (\<lambda>p. decimal (fst p)) (filter (\<lambda>p. is_array_index (fst p)) props)
     @ filter (\<lambda>p. \<not> is_array_index (fst p)) props"

text \<open>
  \<open>xs.sort((a, b) => key(a) - key(b))\<close>, where \<open>None\<close> stands for a key that is NaN.
  With a consistent comparator the sort is stable. An array of at most one element is
  returned as it is. Otherwise a NaN makes the comparator inconsistent and the order
  is implementation-defined: the result \<open>None\<close>.
\<close>

definition sort_by_number :: "('a \<Rightarrow> int option) \<Rightarrow> 'a list \<Rightarrow> 'a list option" where
  "sort_by_number key xs =
     (if length xs \<le> 1 then Some xs
      else if list_ex (\<lambda>x. key x = None) xs then None
      else Some (sort_key (\<lambda>x. the (key x)) xs))"

subsection \<open>Double-precision arithmetic\<close>

text \<open>
  A JavaScript number is an IEEE 754 double. The non-negative finite doubles that
  occur are fractions \<open>(a, b)\<close> for \<open>a / b\<close>, and an operation rounds its exact result
  to 53 significant bits, to nearest with ties to even. Overflow and subnormal numbers
  are not modelled: they need magnitudes that counts of array elements do not reach.
\<close>

fun bitlen :: "nat \<Rightarrow> nat" where
  "bitlen n = (if n = 0 then 0 else Suc (bitlen (n div 2)))"

declare bitlen.simps [simp del]

text \<open>\<open>n / d\<close> rounded to the nearest natural number, ties to even.\<close>

definition round_nearest_even :: "nat \<Rightarrow> nat \<Rightarrow> nat" where
  "round_nearest_even n d =
     (let q = n div d; r = n mod d
      in if 2 * r < d then q else if d < 2 * r then q + 1 else if even q then q else q + 1)"

text \<open>The fraction \<open>n / d * 2^k\<close>.\<close>

definition scaled :: "nat \<Rightarrow> nat \<Rightarrow> int \<Rightarrow> nat \<times> nat" where
  "scaled n d k = (if 0 \<le> k then (n * 2 ^ nat k, d) else (n, d * 2 ^ nat (- k)))"

text \<open>
  The double nearest to \<open>n / d\<close>: with \<open>k\<close> such that \<open>2^52 \<le> n / d * 2^k < 2^53\<close>,
  the nearest integer to \<open>n / d * 2^k\<close>, scaled back.
\<close>

definition round53 :: "nat \<Rightarrow> nat \<Rightarrow> nat \<times> nat" where
  "round53 n d =
     (if n = 0 then (0, 1)
      else
        (let k1 = 52 + int (bitlen d) - int (bitlen n);
             s1 = scaled n d k1;
             k = (if 2 ^ 52 * snd s1 \<le> fst s1 then k1 else k1 + 1);
             s = scaled n d k
         in scaled (round_nearest_even (fst s) (snd s)) 1 (- k)))"

text \<open>\<open>Math.round\<close>: the nearest integer, a tie going up.\<close>

definition math_round :: "nat \<times> nat \<Rightarrow> nat" where
  "math_round x = (2 * fst x + snd x) div (2 * snd x)"

datatype js_number = Finite nat | Infinity | NaN

text \<open>
  \<open>Math.round((count / total) * 100)\<close>. A count that is a string is not a numeral,
  so the quotient is NaN; a division by zero gives Infinity, or NaN for \<open>0 / 0\<close>.
\<close>

definition percentage_of :: "count_value \<Rightarrow> nat \<Rightarrow> js_number" where
  "percentage_of c divisor =
     (case c of
        NativeText f n \<Rightarrow> NaN
      | Count n \<Rightarrow>
          if divisor = 0 then (if n = 0 then NaN else Infinity)
          else (let quotient = round53 n divisor
                in Finite (math_round (round53 (fst quotient * 100) (snd quotient)))))"

subsection \<open>processAnalytics\<close>

datatype color_value = Color string | InheritedProperty string

definition topicColors :: "(string \<times> string) list" where
  "topicColors =
     [(''AI'', ''#8B5CF6''), (''Funding'', ''#10B981''), (''Product'', ''#F59E0B''),
      (''Regulation'', ''#EF4444''), (''Other'', ''#6B7280'')]"

text \<open>\<open>topicColors[topic] || topicColors.Other\<close>, on an object literal.\<close>

definition color_of :: "string \<Rightarrow> color_value" where
  "color_of t =
     (case map_of topicColors t of
        Some c \<Rightarrow> Color c
      | None \<Rightarrow>
          if t = ''__proto__'' \<or> t \<in> set object_prototype_functions then InheritedProperty t
          else Color ''#6B7280'')"

text \<open>
  The three interfaces of the results. Their fields \<open>topic\<close> and \<open>count\<close> carry a
  prefix, a field name being one constant of the theory. A count is what the counting
  object holds for the key, a percentage is a number that can be NaN, and a colour is
  what the lookup in \<open>topicColors\<close> reads.
\<close>

record TopicDistribution =
  dist_topic :: string
  dist_count :: count_value
  percentage :: js_number
  color :: color_value

record ArticlesByDate =
  date :: string
  date_count :: count_value

record WordFrequency =
  word :: string
  word_count :: count_value

definition distribution :: "NewsArticle list \<Rightarrow> TopicDistribution list" where
  "distribution data =
     (let topicCounts = count_keys (map topic data);
          total = length data
      in map (\<lambda>entry. \<lparr>dist_topic = fst entry, dist_count = snd entry,
                         percentage = percentage_of (snd entry) total,
                         color = color_of (fst entry)\<rparr>)
           (object_entries topicCounts))"

text \<open>
  The two uses of \<open>Date\<close> are parameters: \<open>toLocaleDateString s\<close> stands for
  \<open>new Date(s).toLocaleDateString()\<close> and \<open>getTime s\<close> for \<open>new Date(s).getTime()\<close>
  (\<open>None\<close> for NaN), both of which depend on the locale and the time zone of
  the browser. \<open>slice(-7)\<close> keeps the last seven elements.
\<close>

definition byDate ::
  "(string \<Rightarrow> string) \<Rightarrow> (string \<Rightarrow> int option) \<Rightarrow> NewsArticle list \<Rightarrow> ArticlesByDate list option" where
  "byDate toLocaleDateString getTime data =
     (let dateGroups = count_keys (map (\<lambda>article. toLocaleDateString (published_date article)) data)
      in map_option (\<lambda>sorted_entries. drop (length sorted_entries - 7) sorted_entries)
           (sort_by_number (\<lambda>a. getTime (date a))
              (map (\<lambda>entry. \<lparr>date = fst entry, date_count = snd entry\<rparr>)
                 (object_entries dateGroups))))"

definition stopwords :: "string list" where
  "stopwords =
     [''the'', ''a'', ''an'', ''and'', ''or'', ''but'', ''in'', ''on'', ''at'', ''to'', ''for'',
      ''of'', ''with'', ''by'', ''from'', ''up'', ''about'', ''into'', ''through'', ''during'',
      ''before'', ''after'', ''above'', ''below'', ''between'', ''among'', ''is'', ''are'',
      ''was'', ''were'', ''be'', ''been'', ''being'', ''have'', ''has'', ''had'', ''do'',
      ''does'', ''did'', ''will'', ''would'', ''could'', ''should'', ''may'', ''might'',
      ''must'', ''can'', ''cant'', ''wont'', ''dont'', ''doesnt'', ''didnt'', ''isnt'',
      ''arent'', ''wasnt'', ''werent'', ''hasnt'', ''havent'', ''hadnt'', ''wouldnt'',
      ''couldnt'', ''shouldnt'', ''mightnt'', ''mustnt'']"

definition is_word_char :: "char \<Rightarrow> bool" where
  "is_word_char c =
     (let n = (of_char c :: nat)
      in (48 \<le> n \<and> n \<le> 57) \<or> (65 \<le> n \<and> n \<le> 90) \<or> n = 95 \<or> (97 \<le> n \<and> n \<le> 122))"

text \<open>
  \<open>s.split(/\W+/)\<close>: the pieces between the maximal runs of non-word characters. A
  run at the start or at the end of the string leaves an empty piece there, and the
  empty string gives one empty piece.
\<close>

function split_nonword :: "string \<Rightarrow> string list" where
  "split_nonword [] = [[]]"
| "split_nonword (c # cs) =
     (if is_word_char c then
        (case split_nonword cs of
           [] \<Rightarrow> [[c]]
         | piece # pieces \<Rightarrow> (c # piece) # pieces)
      else [] # split_nonword (dropWhile (\<lambda>x. \<not> is_word_char x) cs))"
  by pat_completeness auto
termination
  by (relation "measure length") (auto simp: less_Suc_eq_le length_dropWhile_le)

definition words :: "NewsArticle list \<Rightarrow> string list" where
  "words data =
     filter (\<lambda>w. 2 < length w \<and> w \<notin> set stopwords)
       (concat (map (\<lambda>article. split_nonword (toLowerCase (title article))) data))"

text \<open>
  \<open>topWords\<close> as a function of the array \<open>words\<close>. The comparator is
  \<open>b.count - a.count\<close>, which is NaN when a count is a string.
\<close>

definition topWords :: "string list \<Rightarrow> WordFrequency list option" where
  "topWords ws =
     (let wordCounts = count_keys ws
      in map_option (take 5)
           (sort_by_number
              (\<lambda>a. case word_count a of Count n \<Rightarrow> Some (- int n) | NativeText f n \<Rightarrow> None)
              (map (\<lambda>entry. \<lparr>word = fst entry, word_count = snd entry\<rparr>)
                 (object_entries wordCounts))))"

record analytics =
  topicDistribution :: "TopicDistribution list"
  articlesByDate :: "ArticlesByDate list option"
  wordFrequency :: "WordFrequency list option"
  recentArticles :: "NewsArticle list"

definition processAnalytics ::
  "(string \<Rightarrow> string) \<Rightarrow> (string \<Rightarrow> int option) \<Rightarrow> NewsArticle list \<Rightarrow> analytics" where
  "processAnalytics toLocaleDateString getTime data =
     \<lparr>topicDistribution = distribution data,
      articlesByDate = byDate toLocaleDateString getTime data,
      wordFrequency = topWords (words data),
      recentArticles = take 5 data\<rparr>"


section \<open>The properties in the specification's terms\<close>

text \<open>
  The keyword groups in their priority order, and the indices of the groups of which
  some keyword is a substring of the case-folded headline.
\<close>

definition keyword_groups :: "(category \<times> string list) list" where
  "keyword_groups =
     [(AI, [''ai'', ''artificial intelligence'', ''machine learning'', ''chatgpt'', ''openai'']),
      (Funding, [''funding'', ''investment'', ''raises'', ''series'', ''venture'']),
      (Product, [''product'', ''launch'', ''release'', ''update'', ''feature'']),
      (Regulation, [''regulation'', ''policy'', ''government'', ''legal'', ''lawsuit''])]"

definition group_matches :: "string \<Rightarrow> nat \<Rightarrow> bool" where
  "group_matches h i = list_ex (js_includes (toLowerCase h)) (snd (keyword_groups ! i))"

definition matching_groups :: "string \<Rightarrow> nat list" where
  "matching_groups h = filter (group_matches h) [0..<length keyword_groups]"

text \<open>The company names of which the lower-case form is a substring, in list order.\<close>

definition matching_companies :: "string \<Rightarrow> string list" where
  "matching_companies h =
     filter (\<lambda>name. js_includes (toLowerCase h) (toLowerCase name)) companies"

text \<open>The labels of the qualifying heading lines of a markdown text, in line order.\<close>

definition qualifying_headlines :: "string \<Rightarrow> string list" where
  "qualifying_headlines markdown = List.map_filter headlineMatch (split_on (CHR 0x0A) markdown)"

definition to_article :: "string \<Rightarrow> Article" where
  "to_article h =
     \<lparr>headline = h, company = extractCompanyFromHeadline h, category = categorizeHeadline h\<rparr>"

text \<open>
  The keys in the order of their first occurrence, and what the counting object holds
  for a key after the keys \<open>ks\<close>: the number of its occurrences, or for the name of a
  function of \<open>Object.prototype\<close> the text that the increments have built.
\<close>

definition first_occurrences :: "'a list \<Rightarrow> 'a list" where
  "first_occurrences xs = rev (remdups (rev xs))"

definition counted :: "string list \<Rightarrow> string \<Rightarrow> count_value" where
  "counted ks k =
     (if k \<in> set object_prototype_functions then NativeText k (count_list ks k)
      else Count (count_list ks k))"

text \<open>
  A key that the counting object treats like any other: not the name of a property of
  \<open>Object.prototype\<close>, and not an array index.
\<close>

definition plain_key :: "string \<Rightarrow> bool" where
  "plain_key k =
     (k \<noteq> ''__proto__'' \<and> k \<notin> set object_prototype_functions \<and> \<not> is_array_index k)"

text \<open>
  The distinct words with their numbers of occurrences, in the order of first
  occurrence, and that table in descending order of the numbers by a stable sort.
\<close>

definition numeric_count :: "count_value \<Rightarrow> nat" where
  "numeric_count c = (case c of Count n \<Rightarrow> n | NativeText f n \<Rightarrow> 0)"

definition word_table :: "string list \<Rightarrow> WordFrequency list" where
  "word_table ws =
     map (\<lambda>w. \<lparr>word = w, word_count = Count (count_list ws w)\<rparr>) (first_occurrences ws)"

definition ranked_words :: "string list \<Rightarrow> WordFrequency list" where
  "ranked_words ws = sort_key (\<lambda>e. - int (numeric_count (word_count e))) (word_table ws)"


text \<open>
  Articles for the examples: one of a given title, one of a given topic, one of a
  given published date.
\<close>

definition titled :: "string \<Rightarrow> NewsArticle" where
  "titled t = \<lparr>ident = 0, title = t, url = [], topic = ''Other'', published_date = [],
     created_at = []\<rparr>"

definition on_topic :: "string \<Rightarrow> NewsArticle" where
  "on_topic t = \<lparr>ident = 0, title = [], url = [], topic = t, published_date = [],
     created_at = []\<rparr>"

definition published_on :: "string \<Rightarrow> NewsArticle" where
  "published_on d = \<lparr>ident = 0, title = [], url = [], topic = ''Other'', published_date = d,
     created_at = d\<rparr>"

definition ai_titles :: "NewsArticle list" where
  "ai_titles = [titled ''AI raises funding for AI'', titled ''AI product launch'']"

definition tech_titles :: "NewsArticle list" where
  "tech_titles =
     [titled ''Apple launches new phone'', titled ''Google launches search update'',
      titled ''Apple and Google face EU lawsuit'', titled ''Tesla recalls cars'']"



definition ten_articles :: "NewsArticle list" where
  "ten_articles =
     replicate 4 (on_topic ''AI'') @ replicate 3 (on_topic ''Product'')
     @ replicate 3 (on_topic ''Funding'')"

text \<open>A markdown text with seven qualifying lines among nine, and one with two.\<close>

definition seven_headings :: string where
  "seven_headings =
     ''# [a1](u)'' @ [CHR 0x0A] @ ''plain text'' @ [CHR 0x0A] @ ''## [b2](u)'' @ [CHR 0x0A]
     @ ''### [c3](u)'' @ [CHR 0x0A] @ ''##### [deep](u)'' @ [CHR 0x0A] @ ''#### [d4](u)''
     @ [CHR 0x0A] @ ''# [e5](u)'' @ [CHR 0x0A] @ ''# [f6](u)'' @ [CHR 0x0A] @ ''# [g7](u)''"

definition two_headings :: string where
  "two_headings = ''intro'' @ [CHR 0x0A] @ ''## [first](u)'' @ [CHR 0x0A] @ ''#[no]''
     @ [CHR 0x0A] @ ''# [second] more'' @ [CHR 0x0A]"


section \<open>Substrings\<close>

text \<open>\<open>js_includes s k\<close> holds exactly when \<open>k\<close> is a contiguous part of \<open>s\<close>.\<close>

lemma starts_with_iff: "starts_with s k \<longleftrightarrow> (\<exists>q. s = k @ q)"
  by (induction s k rule: starts_with.induct) auto

lemma js_includes_iff: "js_includes s k \<longleftrightarrow> (\<exists>p q. s = p @ k @ q)"
proof (induction s)
  case Nil
  then show ?case by auto
next
  case (Cons c cs)
  show ?case
  proof
    assume "js_includes (c # cs) k"
    then consider "starts_with (c # cs) k" | "js_includes cs k" by auto
    then show "\<exists>p q. c # cs = p @ k @ q"
    proof cases
      case 1
      then obtain q where "c # cs = k @ q" by (auto simp: starts_with_iff)
      then have "c # cs = [] @ k @ q" by simp
      then show ?thesis by blast
    next
      case 2
      then obtain p q where "cs = p @ k @ q" using Cons.IH by blast
      then have "c # cs = (c # p) @ k @ q" by simp
      then show ?thesis by blast
    qed
  next
    assume "\<exists>p q. c # cs = p @ k @ q"
    then obtain p q where pq: "c # cs = p @ k @ q" by blast
    show "js_includes (c # cs) k"
    proof (cases p)
      case Nil
      then have "starts_with (c # cs) k" using pq by (auto simp: starts_with_iff)
      then show ?thesis by simp
    next
      case (Cons a p')
      then have "cs = p' @ k @ q" using pq by simp
      then have "js_includes cs k" using Cons.IH by blast
      then show ?thesis by simp
    qed
  qed
qed


text \<open>
  The pieces of \<open>split_on d s\<close> hold no \<open>d\<close>, and joined by \<open>d\<close> they give \<open>s\<close> back.
\<close>

lemma split_on_nonempty [simp]: "split_on d s \<noteq> []"
  by (induction s) (auto split: list.splits)

lemma split_on_pieces: "l \<in> set (split_on d s) \<Longrightarrow> d \<notin> set l"
proof (induction s arbitrary: l)
  case Nil
  then show ?case by simp
next
  case (Cons c cs)
  obtain p ps where ps: "split_on d cs = p # ps"
    using split_on_nonempty[of d cs] by (cases "split_on d cs") auto
  show ?case
  proof (cases "c = d")
    case True
    with Cons show ?thesis by auto
  next
    case False
    with Cons.prems ps have "l = c # p \<or> l \<in> set ps" by simp
    then show ?thesis
    proof
      assume "l = c # p"
      moreover have "d \<notin> set p" using Cons.IH[of p] ps by simp
      ultimately show ?thesis using False by simp
    next
      assume "l \<in> set ps"
      then show ?thesis using Cons.IH[of l] ps by simp
    qed
  qed
qed

lemma split_on_join:
  "foldr (\<lambda>l r. l @ d # r) (butlast (split_on d s)) (last (split_on d s)) = s"
proof (induction s)
  case Nil
  then show ?case by simp
next
  case (Cons c cs)
  obtain p ps where ps: "split_on d cs = p # ps"
    using split_on_nonempty[of d cs] by (cases "split_on d cs") auto
  show ?case
  proof (cases "c = d")
    case True
    then show ?thesis using Cons ps by simp
  next
    case False
    then show ?thesis using Cons ps by (cases ps) auto
  qed
qed


section \<open>Headline classification\<close>

lemma length_keyword_groups: "length keyword_groups = 4"
  by (simp add: keyword_groups_def)

lemma upt_0_4: "[0..<4] = [0, 1, 2, 3]"
  by (simp add: upt_rec)

lemma matching_groups_unfold:
  "matching_groups h =
     (if group_matches h 0 then [0] else []) @ (if group_matches h 1 then [1] else []) @
     (if group_matches h 2 then [2] else []) @ (if group_matches h 3 then [3] else [])"
  unfolding matching_groups_def length_keyword_groups upt_0_4 by simp

lemma categorizeHeadline_groups:
  "categorizeHeadline h =
     (if group_matches h 0 then AI else if group_matches h 1 then Funding
      else if group_matches h 2 then Product else if group_matches h 3 then Regulation
      else Other)"
  by (simp add: categorizeHeadline_def group_matches_def keyword_groups_def Let_def)

text \<open>The category is that of the first matching group, and \<open>Other\<close> when there is none.\<close>

lemma categorizeHeadline_first:
  "categorizeHeadline h =
     (case matching_groups h of [] \<Rightarrow> Other | i # _ \<Rightarrow> fst (keyword_groups ! i))"
  by (simp add: categorizeHeadline_groups matching_groups_unfold keyword_groups_def)

lemma sorted_matching_groups: "sorted (matching_groups h)"
  by (simp add: matching_groups_def sorted_wrt_filter)

lemma Min_sorted_Cons: "sorted (x # xs) \<Longrightarrow> Min (set (x # xs)) = (x::nat)"
  by (auto intro!: Min_eqI)

text \<open>
  Claim C1. Whenever keywords of two or more groups occur in the case-folded headline,
  \<open>categorizeHeadline\<close> returns the category of the matching group of least index in
  the order AI, Funding, Product, Regulation; and it returns \<open>Other\<close> exactly when no
  keyword of any group is a substring of the case-folded headline.
\<close>

theorem categorizeHeadline_lowest_matching_group:
  "(2 \<le> length (matching_groups h) \<longrightarrow>
      categorizeHeadline h = fst (keyword_groups ! Min (set (matching_groups h))))
   \<and> (categorizeHeadline h = Other \<longleftrightarrow> matching_groups h = [])"
proof (cases "matching_groups h")
  case Nil
  then show ?thesis by (simp add: categorizeHeadline_first)
next
  case (Cons i rest)
  have "sorted (i # rest)" using sorted_matching_groups[of h] Cons by simp
  then have m: "Min (set (matching_groups h)) = i"
    unfolding Cons by (rule Min_sorted_Cons)
  have "i \<in> set (matching_groups h)" using Cons by simp
  then have "i < 4" unfolding matching_groups_def length_keyword_groups by simp
  then have "fst (keyword_groups ! i) \<noteq> Other"
    by (auto simp: keyword_groups_def less_Suc_eq numeral_eq_Suc)
  then show ?thesis using Cons m by (simp add: categorizeHeadline_first)
qed

text \<open>
  The headline \<open>Startup raises $5M\<close> holds the Funding keyword \<open>raises\<close>, and with it
  the AI keyword \<open>ai\<close>: groups 0 and 1 match and the category is AI. In
  \<open>Quarterly results\<close> no keyword occurs.
\<close>

theorem categorizeHeadline_lowest_matching_group_witness:
  "matching_groups ''Startup raises $5M'' = [0, 1]
   \<and> categorizeHeadline ''Startup raises $5M'' = AI
   \<and> categorizeHeadline ''Quarterly results'' = Other"
proof -
  have m: "matching_groups ''Startup raises $5M'' = [0, 1]" by code_simp
  have n: "matching_groups ''Quarterly results'' = []" by code_simp
  have k: "fst (keyword_groups ! 0) = AI" by (simp add: keyword_groups_def)
  show ?thesis
    using categorizeHeadline_lowest_matching_group[of "''Startup raises $5M''"]
      categorizeHeadline_lowest_matching_group[of "''Quarterly results''"] m n k
    by simp
qed

text \<open>
  The Funding keyword \<open>raises\<close> holds the AI keyword \<open>ai\<close>: a headline in which it
  occurs is in the category AI, whatever else occurs in it.
\<close>

lemma raises_holds_ai: "js_includes s ''raises'' \<Longrightarrow> js_includes s ''ai''"
proof -
  assume "js_includes s ''raises''"
  then obtain p q where "s = p @ ''raises'' @ q" by (auto simp: js_includes_iff)
  then have "s = (p @ ''r'') @ ''ai'' @ (''ses'' @ q)" by simp
  then show ?thesis unfolding js_includes_iff by blast
qed

lemma raises_is_AI: "js_includes (toLowerCase h) ''raises'' \<Longrightarrow> categorizeHeadline h = AI"
  by (simp add: categorizeHeadline_def Let_def raises_holds_ai)

text \<open>
  Claim C2. When the keywords of exactly one group occur in the case-folded headline,
  as substrings, \<open>categorizeHeadline\<close> returns the category of that group.
\<close>

theorem categorizeHeadline_single_group:
  "matching_groups h = [i] \<Longrightarrow> categorizeHeadline h = fst (keyword_groups ! i)"
  by (simp add: categorizeHeadline_first)

theorem categorizeHeadline_single_group_witness:
  "matching_groups ''Startup secures new funding'' = [1]
   \<and> categorizeHeadline ''Startup secures new funding'' = Funding"
proof -
  have m: "matching_groups ''Startup secures new funding'' = [1]" by code_simp
  have k: "fst (keyword_groups ! 1) = Funding" by (simp add: keyword_groups_def)
  show ?thesis using categorizeHeadline_single_group[OF m] m k by simp
qed


section \<open>Company extraction\<close>

lemma scan_companies_filter:
  "scan_companies h names =
     (case filter (\<lambda>name. js_includes (toLowerCase h) (toLowerCase name)) names of
        [] \<Rightarrow> None | name # _ \<Rightarrow> Some name)"
  by (induction names) simp_all

lemma extractCompany_first:
  "extractCompanyFromHeadline h =
     (case matching_companies h of [] \<Rightarrow> None | name # _ \<Rightarrow> Some name)"
  by (simp add: extractCompanyFromHeadline_def matching_companies_def scan_companies_filter)

text \<open>
  Claim C4, as stated: for the headline \<open>Apple sues Google\<close> the result is \<open>Apple\<close>.
  It is not: \<open>Google\<close> stands before \<open>Apple\<close> in the list.
\<close>

theorem extractCompany_apple_sues_google_not_apple:
  "extractCompanyFromHeadline ''Apple sues Google'' \<noteq> Some ''Apple''"
  by code_simp

text \<open>
  Claim C4, amended. \<open>extractCompanyFromHeadline\<close> returns nothing exactly when no
  company name occurs, in lower case, in the case-folded headline; when exactly one
  occurs it returns that name; when several occur it returns the one that stands
  first in the list. In \<open>Apple sues Google\<close> the names \<open>Google\<close> and \<open>Apple\<close> occur, in
  that list order, and the result is \<open>Google\<close>.
\<close>

theorem extractCompany_first_in_list_order:
  "(extractCompanyFromHeadline h = None \<longleftrightarrow> matching_companies h = [])
   \<and> (\<forall>name. matching_companies h = [name] \<longrightarrow> extractCompanyFromHeadline h = Some name)
   \<and> (\<forall>name rest. matching_companies h = name # rest \<longrightarrow>
         extractCompanyFromHeadline h = Some name)
   \<and> matching_companies ''Apple sues Google'' = [''Google'', ''Apple'']
   \<and> extractCompanyFromHeadline ''Apple sues Google'' = Some ''Google''"
proof -
  have "matching_companies ''Apple sues Google'' = [''Google'', ''Apple'']" by code_simp
  moreover have "extractCompanyFromHeadline ''Apple sues Google'' = Some ''Google''"
    by code_simp
  ultimately show ?thesis
    by (simp add: extractCompany_first split: list.splits)
qed

theorem extractCompany_first_in_list_order_witness:
  "matching_companies ''Tesla recalls cars'' = [''Tesla'']
   \<and> extractCompanyFromHeadline ''Tesla recalls cars'' = Some ''Tesla''
   \<and> matching_companies ''Quarterly results'' = []
   \<and> extractCompanyFromHeadline ''Quarterly results'' = None"
proof -
  have a: "matching_companies ''Tesla recalls cars'' = [''Tesla'']" by code_simp
  have b: "matching_companies ''Quarterly results'' = []" by code_simp
  show ?thesis
    using extractCompany_first_in_list_order[of "''Tesla recalls cars''"]
      extractCompany_first_in_list_order[of "''Quarterly results''"] a b
    by simp
qed


section \<open>Headlines from markdown\<close>

text \<open>
  A line qualifies with the label \<open>label\<close> exactly when it consists of one to four
  \<open>#\<close>, white space, an opening bracket, the label, a closing bracket and any rest,
  where the label is not empty, holds no line terminator and holds no closing bracket
  after its first character.
\<close>

lemma takeWhile_replicate_eq: "takeWhile (\<lambda>c. c = a) xs = replicate (length (takeWhile (\<lambda>c. c = a) xs)) a"
  by (induction xs) auto

lemma not_space_hash: "\<not> is_space (CHR ''#'')" "\<not> is_space (CHR ''['')"
  by (simp_all add: is_space_def)

lemma takeWhile_prefix: "list_all P xs \<Longrightarrow> \<not> P y \<Longrightarrow> takeWhile P (xs @ y # ys) = xs"
  by (induction xs) auto

lemma dropWhile_prefix: "list_all P xs \<Longrightarrow> \<not> P y \<Longrightarrow> dropWhile P (xs @ y # ys) = y # ys"
  by (induction xs) auto

lemma headlineMatch_pattern:
  "headlineMatch line = Some label \<longleftrightarrow>
     (\<exists>n spaces rest.
        line = replicate n (CHR ''#'') @ spaces @ [CHR ''[''] @ label @ [CHR '']''] @ rest
        \<and> 1 \<le> n \<and> n \<le> 4 \<and> spaces \<noteq> [] \<and> list_all is_space spaces
        \<and> label \<noteq> [] \<and> \<not> list_ex is_line_terminator label \<and> CHR '']'' \<notin> set (tl label))"
  (is "?L \<longleftrightarrow> ?R")
proof
  assume L: ?L
  define hashes where "hashes = takeWhile (\<lambda>c. c = CHR ''#'') line"
  define after_hashes where "after_hashes = dropWhile (\<lambda>c. c = CHR ''#'') line"
  define spaces where "spaces = takeWhile is_space after_hashes"
  define after_spaces where "after_spaces = dropWhile is_space after_hashes"
  define inside where "inside = (\<lambda>x. x \<noteq> CHR '']'' \<and> \<not> is_line_terminator x)"
  have line: "line = hashes @ spaces @ after_spaces"
    by (simp add: hashes_def after_hashes_def spaces_def after_spaces_def)
  have hashes: "hashes = replicate (length hashes) (CHR ''#'')"
    unfolding hashes_def by (rule takeWhile_replicate_eq)
  from L have guard: "1 \<le> length hashes" "length hashes \<le> 4" "spaces \<noteq> []"
    unfolding headlineMatch_def Let_def hashes_def[symmetric] after_hashes_def[symmetric]
      spaces_def[symmetric] after_spaces_def[symmetric]
    by (auto split: if_splits)
  from L guard obtain c cs e rest where parts: "after_spaces = CHR ''['' # c # cs"
    "\<not> is_line_terminator c" "dropWhile inside cs = e # rest" "e = CHR '']''"
    "label = c # takeWhile inside cs"
    unfolding headlineMatch_def Let_def hashes_def[symmetric] after_hashes_def[symmetric]
      spaces_def[symmetric] after_spaces_def[symmetric] inside_def[symmetric]
    by (auto split: if_splits list.splits)
  have cs: "cs = takeWhile inside cs @ CHR '']'' # rest"
    using parts(3,4) takeWhile_dropWhile_id[of inside cs] by simp
  have "line = replicate (length hashes) (CHR ''#'') @ spaces @ [CHR ''[''] @ label @ [CHR '']''] @ rest"
    using line hashes parts(1,5) cs by simp
  moreover have "list_all is_space spaces"
    unfolding spaces_def list_all_iff by (auto dest: set_takeWhileD)
  moreover have "\<not> list_ex is_line_terminator label" "CHR '']'' \<notin> set (tl label)"
    using parts(2,5) by (auto simp: list_ex_iff inside_def dest: set_takeWhileD)
  ultimately show ?R using guard parts(5) by blast
next
  assume ?R
  then obtain n spaces rest where R:
    "line = replicate n (CHR ''#'') @ spaces @ [CHR ''[''] @ label @ [CHR '']''] @ rest"
    "1 \<le> n" "n \<le> 4" "spaces \<noteq> []" "list_all is_space spaces"
    "label \<noteq> []" "\<not> list_ex is_line_terminator label" "CHR '']'' \<notin> set (tl label)"
    by blast
  define inside where "inside = (\<lambda>x. x \<noteq> CHR '']'' \<and> \<not> is_line_terminator x)"
  from R(4,5) obtain s ss where spaces: "spaces = s # ss" "is_space s"
    by (cases spaces) auto
  then have s: "\<not> (s = CHR ''#'')" using not_space_hash by auto
  have all_hash: "list_all (\<lambda>c. c = CHR ''#'') (replicate n (CHR ''#''))"
    by (simp add: list_all_iff)
  have line: "line = replicate n (CHR ''#'') @ s # (ss @ [CHR ''[''] @ label @ [CHR '']''] @ rest)"
    unfolding R(1) spaces by simp
  have tw: "takeWhile (\<lambda>c. c = CHR ''#'') line = replicate n (CHR ''#'')"
    unfolding line by (rule takeWhile_prefix[OF all_hash s])
  have "dropWhile (\<lambda>c. c = CHR ''#'') line = s # (ss @ [CHR ''[''] @ label @ [CHR '']''] @ rest)"
    unfolding line by (rule dropWhile_prefix[OF all_hash s])
  then have dw: "dropWhile (\<lambda>c. c = CHR ''#'') line = spaces @ CHR ''['' # (label @ [CHR '']''] @ rest)"
    by (simp add: spaces)
  have tws: "takeWhile is_space (spaces @ CHR ''['' # (label @ [CHR '']''] @ rest)) = spaces"
    by (rule takeWhile_prefix[OF R(5) not_space_hash(2)])
  have dws: "dropWhile is_space (spaces @ CHR ''['' # (label @ [CHR '']''] @ rest))
      = CHR ''['' # (label @ [CHR '']''] @ rest)"
    by (rule dropWhile_prefix[OF R(5) not_space_hash(2)])
  from R(6) obtain c cs where label: "label = c # cs" by (cases label) auto
  have c: "\<not> is_line_terminator c" and cs: "list_all inside cs"
    using R(7,8) label by (auto simp: list_ex_iff list_all_iff inside_def)
  have close: "\<not> inside (CHR '']'')" by (simp add: inside_def)
  have twi: "takeWhile inside (cs @ CHR '']'' # rest) = cs"
    by (rule takeWhile_prefix[OF cs close])
  have dwi: "dropWhile inside (cs @ CHR '']'' # rest) = CHR '']'' # rest"
    by (rule dropWhile_prefix[OF cs close])
  show ?L
    unfolding headlineMatch_def Let_def tw dw tws dws inside_def[symmetric]
    using R(2,3,4) c twi dwi by (simp add: label)
qed

text \<open>
  The no-break space belongs to the white space of the pattern: a heading with it
  between the \<open>#\<close> and the bracket qualifies.
\<close>

lemma headlineMatch_no_break_space:
  "headlineMatch (''#'' @ [CHR 0xA0] @ ''[Nvidia unveils chip](u)'') = Some ''Nvidia unveils chip''"
  by code_simp

lemma scan_lines_take:
  "length acc < 5 \<Longrightarrow>
     scan_lines acc ls = take 5 (acc @ map to_article (List.map_filter headlineMatch ls))"
proof (induction ls arbitrary: acc)
  case Nil
  then show ?case by (simp add: List.map_filter_simps)
next
  case (Cons l ls)
  show ?case
  proof (cases "headlineMatch l")
    case None
    then show ?thesis using Cons by (simp add: List.map_filter_simps)
  next
    case (Some h)
    show ?thesis
    proof (cases "5 \<le> length acc + 1")
      case True
      with Cons.prems have "length acc = 4" by simp
      then show ?thesis using Some
        by (simp add: List.map_filter_simps to_article_def Let_def)
    next
      case False
      then have "length (acc @ [to_article h]) < 5" by simp
      from Cons.IH[OF this] False Some show ?thesis
        by (simp add: List.map_filter_simps to_article_def Let_def)
    qed
  qed
qed

lemma parseHeadlines_take:
  "parseHeadlinesFromMarkdown md = take 5 (map to_article (qualifying_headlines md))"
  by (simp add: parseHeadlinesFromMarkdown_def qualifying_headlines_def scan_lines_take)

text \<open>
  Claim C7. \<open>parseHeadlinesFromMarkdown\<close> returns the articles of the first five
  qualifying heading lines, in line order: never more than five, exactly five when
  seven or more lines qualify, as many as qualify when fewer than five do (the other
  lines are skipped), and none for the empty text.
\<close>

theorem parseHeadlines_first_five:
  "parseHeadlinesFromMarkdown md = take 5 (map to_article (qualifying_headlines md))
   \<and> length (parseHeadlinesFromMarkdown md) \<le> 5
   \<and> (7 \<le> length (qualifying_headlines md) \<longrightarrow> length (parseHeadlinesFromMarkdown md) = 5)
   \<and> (length (qualifying_headlines md) < 5 \<longrightarrow>
        length (parseHeadlinesFromMarkdown md) = length (qualifying_headlines md))
   \<and> parseHeadlinesFromMarkdown [] = []"
proof -
  have "parseHeadlinesFromMarkdown [] = []"
    by (simp add: parseHeadlinesFromMarkdown_def headlineMatch_def)
  then show ?thesis by (simp add: parseHeadlines_take)
qed

theorem parseHeadlines_first_five_witness:
  "qualifying_headlines seven_headings = [''a1'', ''b2'', ''c3'', ''d4'', ''e5'', ''f6'', ''g7'']
   \<and> map headline (parseHeadlinesFromMarkdown seven_headings)
       = [''a1'', ''b2'', ''c3'', ''d4'', ''e5'']
   \<and> qualifying_headlines two_headings = [''first'', ''second'']
   \<and> length (parseHeadlinesFromMarkdown two_headings) = 2"
proof -
  have a: "qualifying_headlines seven_headings = [''a1'', ''b2'', ''c3'', ''d4'', ''e5'', ''f6'', ''g7'']"
    by code_simp
  have b: "qualifying_headlines two_headings = [''first'', ''second'']"
    by code_simp
  show ?thesis
    using parseHeadlines_first_five[of seven_headings] parseHeadlines_first_five[of two_headings]
      a b
    by (simp add: to_article_def)
qed


section \<open>The handler\<close>

text \<open>
  Claim C8. When a call to the extraction service fails (the first call, or the second
  after a first that gave no article), the handler answers with status 200, success
  and the fixed sample articles, and the page that receives this answer shows the
  sample articles and no error.
\<close>

theorem handler_external_failure_falls_back:
  "method = ''POST'' \<Longrightarrow> truthy firecrawlApiKey \<Longrightarrow>
   extract_result = Rejected \<or>
     (\<exists>data. extract_result = Resolved data \<and> extracted_articles data = []
        \<and> scrape_result = Rejected) \<Longrightarrow>
   fst (handler method firecrawlApiKey extract_result scrape_result)
     = (200, \<lparr>success = True, articles = Some generateMockData, error = None\<rparr>)
   \<and> shown_error (fetchNews st
         (Resolved (fst (handler method firecrawlApiKey extract_result scrape_result)))) = None
   \<and> shown_articles (fetchNews st
         (Resolved (fst (handler method firecrawlApiKey extract_result scrape_result))))
       = generateMockData"
  by (auto simp: handler_def mock_response_def fetchNews_def Let_def)

theorem handler_external_failure_falls_back_witness:
  "handler ''POST'' (Some ''fc-key'') Rejected (Resolved None)
     = ((200, \<lparr>success = True, articles = Some generateMockData, error = None\<rparr>), [ExtractCall])
   \<and> handler ''POST'' (Some ''fc-key'') (Resolved [None]) Rejected
     = ((200, \<lparr>success = True, articles = Some generateMockData, error = None\<rparr>),
        [ExtractCall, ScrapeCall])"
proof -
  have k: "truthy (Some ''fc-key'')" by (simp add: truthy_def)
  have e: "extracted_articles [None] = []" by (simp add: extracted_articles_def)
  have c1: "snd (handler ''POST'' (Some ''fc-key'') Rejected (Resolved None)) = [ExtractCall]"
    by (simp add: handler_def truthy_def)
  have c2: "snd (handler ''POST'' (Some ''fc-key'') (Resolved [None]) Rejected)
              = [ExtractCall, ScrapeCall]"
    by (simp add: handler_def truthy_def extracted_articles_def)
  show ?thesis
    using handler_external_failure_falls_back
        [of "''POST''" "Some ''fc-key''" Rejected "Resolved None", OF refl k]
      handler_external_failure_falls_back
        [of "''POST''" "Some ''fc-key''" "Resolved [None]" Rejected, OF refl k] e c1 c2
    by (simp add: prod_eq_iff)
qed

text \<open>
  Claim C10. A request whose method is not POST is answered with status 405, no
  success, the error \<open>Method not allowed\<close> and no articles, and no call to the
  extraction service is made.
\<close>

theorem handler_rejects_other_methods:
  "method \<noteq> ''POST'' \<Longrightarrow>
     handler method firecrawlApiKey extract_result scrape_result =
       ((405, \<lparr>success = False, articles = None, error = Some ''Method not allowed''\<rparr>), [])"
  by (simp add: handler_def)

theorem handler_rejects_other_methods_witness:
  "handler ''GET'' (Some ''fc-key'') (Resolved []) (Resolved None) =
     ((405, \<lparr>success = False, articles = None, error = Some ''Method not allowed''\<rparr>), [])"
  using handler_rejects_other_methods[of "''GET''"] by simp


section \<open>Counting objects\<close>

lemma first_occurrences_snoc:
  "first_occurrences (xs @ [x]) = (if x \<in> set xs then first_occurrences xs else first_occurrences xs @ [x])"
  by (simp add: first_occurrences_def)

lemma set_first_occurrences [simp]: "set (first_occurrences xs) = set xs"
  by (simp add: first_occurrences_def)

lemma distinct_first_occurrences [simp]: "distinct (first_occurrences xs)"
  by (simp add: first_occurrences_def)

lemma first_occurrences_Nil [simp]: "first_occurrences [] = []"
  by (simp add: first_occurrences_def)

lemma map_of_tabulate: "map_of (map (\<lambda>x. (x, f x)) xs) k = (if k \<in> set xs then Some (f k) else None)"
  by (induction xs) auto

lemma map_tabulate_other:
  "k \<notin> set xs \<Longrightarrow> map (\<lambda>x. (x, if x = k then v else f x)) xs = map (\<lambda>x. (x, f x)) xs"
  by (induction xs) auto

lemma update_tabulate:
  "k \<in> set xs \<Longrightarrow> distinct xs \<Longrightarrow>
     AList.update k v (map (\<lambda>x. (x, f x)) xs) = map (\<lambda>x. (x, if x = k then v else f x)) xs"
  by (induction xs) (auto simp: map_tabulate_other)

lemma increment_tabulate:
  assumes acc: "acc = map (\<lambda>x. (x, counted ks x)) (first_occurrences (filter (\<lambda>x. x \<noteq> ''__proto__'') ks))"
  shows "increment acc k =
     map (\<lambda>x. (x, counted (ks @ [k]) x)) (first_occurrences (filter (\<lambda>x. x \<noteq> ''__proto__'') (ks @ [k])))"
proof (cases "k = ''__proto__''")
  case True
  then have "map_of acc k = None" by (simp add: acc map_of_tabulate)
  moreover have "map (\<lambda>x. (x, counted (ks @ [k]) x)) (first_occurrences (filter (\<lambda>x. x \<noteq> ''__proto__'') ks)) = acc"
    unfolding acc using True by (auto simp: counted_def)
  ultimately show ?thesis using True by (simp add: increment_def)
next
  case False
  let ?F = "first_occurrences (filter (\<lambda>x. x \<noteq> ''__proto__'') ks)"
  show ?thesis
  proof (cases "k \<in> set ks")
    case True
    then have in_F: "k \<in> set ?F" using False by simp
    then have m: "map_of acc k = Some (counted ks k)" by (simp add: acc map_of_tabulate del: set_first_occurrences)
    have F': "first_occurrences (filter (\<lambda>x. x \<noteq> ''__proto__'') (ks @ [k])) = ?F"
      using True False by (simp add: first_occurrences_snoc)
    have "increment acc k = map (\<lambda>x. (x, if x = k then counted (ks @ [k]) k else counted ks x)) ?F"
      using m update_tabulate[OF in_F distinct_first_occurrences, of _ "counted ks"]
      by (auto simp: increment_def acc counted_def)
    also have "\<dots> = map (\<lambda>x. (x, counted (ks @ [k]) x)) ?F"
      by (auto simp: counted_def)
    finally show ?thesis by (simp only: F')
  next
    case notin: False
    then have m: "map_of acc k = None" by (simp add: acc map_of_tabulate)
    have F': "first_occurrences (filter (\<lambda>x. x \<noteq> ''__proto__'') (ks @ [k])) = ?F @ [k]"
      using notin False by (simp add: first_occurrences_snoc)
    have same: "map (\<lambda>x. (x, counted (ks @ [k]) x)) ?F = acc"
      unfolding acc using notin by (auto simp: counted_def)
    show ?thesis
      unfolding F' using m False notin same
      by (simp add: increment_def counted_def)
  qed
qed

lemma count_keys_eq:
  "count_keys ks =
     map (\<lambda>k. (k, counted ks k)) (first_occurrences (filter (\<lambda>k. k \<noteq> ''__proto__'') ks))"
proof (induction ks rule: rev_induct)
  case Nil
  then show ?case by (simp add: count_keys_def)
next
  case (snoc k ks)
  have "count_keys (ks @ [k]) = increment (count_keys ks) k"
    by (simp add: count_keys_def)
  then show ?case using increment_tabulate[OF snoc.IH] by simp
qed

lemma count_keys_plain:
  assumes "\<forall>k\<in>set ks. plain_key k"
  shows "count_keys ks = map (\<lambda>k. (k, Count (count_list ks k))) (first_occurrences ks)"
proof -
  have "filter (\<lambda>k. k \<noteq> ''__proto__'') ks = ks"
    using assms by (auto simp: plain_key_def filter_id_conv)
  moreover have "map (\<lambda>k. (k, counted ks k)) (first_occurrences ks)
      = map (\<lambda>k. (k, Count (count_list ks k))) (first_occurrences ks)"
    using assms by (auto simp: plain_key_def counted_def)
  ultimately show ?thesis by (simp add: count_keys_eq)
qed

lemma set_object_entries [simp]: "set (object_entries props) = set props"
  by (auto simp: object_entries_def)

lemma mset_object_entries: "mset (object_entries props) = mset props"
  by (simp add: object_entries_def)

lemma object_entries_plain:
  "\<forall>p\<in>set props. \<not> is_array_index (fst p) \<Longrightarrow> object_entries props = props"
  by (simp add: object_entries_def filter_id_conv filter_empty_conv)

lemma sort_by_number_total:
  assumes "\<forall>x\<in>set xs. key x \<noteq> None"
  shows "sort_by_number key xs = Some (sort_key (\<lambda>x. the (key x)) xs)"
proof (cases "length xs \<le> 1")
  case True
  then have "xs = [] \<or> (\<exists>x. xs = [x])"
    by (cases xs) auto
  then show ?thesis by (auto simp: sort_by_number_def)
next
  case False
  then show ?thesis using assms by (auto simp: sort_by_number_def list_ex_iff)
qed

lemma insort_key_agree:
  "f x = g x \<Longrightarrow> (\<And>y. y \<in> set ys \<Longrightarrow> f y = g y) \<Longrightarrow> insort_key f x ys = insort_key g x ys"
  by (induction ys) auto

lemma sort_key_agree:
  "(\<And>x. x \<in> set xs \<Longrightarrow> f x = g x) \<Longrightarrow> sort_key f xs = sort_key g xs"
  by (induction xs) (auto intro: insort_key_agree)

lemma topWords_plain:
  assumes "\<forall>w\<in>set ws. plain_key w"
  shows "topWords ws = Some (take 5 (ranked_words ws))"
proof -
  have ck: "count_keys ws = map (\<lambda>k. (k, Count (count_list ws k))) (first_occurrences ws)"
    using assms by (rule count_keys_plain)
  have "\<forall>p\<in>set (count_keys ws). \<not> is_array_index (fst p)"
    unfolding ck using assms by (auto simp: plain_key_def)
  then have oe: "object_entries (count_keys ws) = count_keys ws"
    by (rule object_entries_plain)
  have tab: "map (\<lambda>entry. \<lparr>word = fst entry, word_count = snd entry\<rparr>) (count_keys ws) = word_table ws"
    unfolding ck by (simp add: word_table_def comp_def)
  have keys: "\<forall>e\<in>set (word_table ws).
      (case word_count e of Count n \<Rightarrow> Some (- int n) | NativeText f n \<Rightarrow> None) \<noteq> None"
    by (auto simp: word_table_def)
  have "sort_key (\<lambda>x. the (case word_count x of Count n \<Rightarrow> Some (- int n) | NativeText f n \<Rightarrow> None)) (word_table ws)
      = ranked_words ws"
    unfolding ranked_words_def
    by (rule sort_key_agree) (auto simp: word_table_def numeric_count_def)
  then show ?thesis
    using sort_by_number_total[OF keys]
    by (simp add: topWords_def oe tab)
qed


section \<open>The aggregator on the empty collection\<close>

lemma count_keys_Nil: "count_keys [] = []"
  by (simp add: count_keys_def)

lemma object_entries_Nil: "object_entries [] = []"
  by (simp add: object_entries_def)

lemma distribution_nonempty:
  assumes "entry \<in> set (distribution data)"
  shows "0 < length data" "percentage entry \<noteq> Infinity"
proof -
  show len: "0 < length data"
  proof (rule ccontr)
    assume "\<not> 0 < length data"
    then have "data = []" by simp
    then have "distribution data = []"
      by (simp add: distribution_def count_keys_Nil object_entries_Nil)
    with assms show False by simp
  qed
  from assms obtain p where "percentage entry = percentage_of (snd p) (length data)"
    by (auto simp: distribution_def Let_def)
  then show "percentage entry \<noteq> Infinity"
    using len by (simp add: percentage_of_def Let_def split: count_value.splits)
qed

text \<open>
  Claim C5. For the empty collection \<open>processAnalytics\<close> gives an empty topic
  distribution, an empty time series, an empty word frequency and an empty recent
  feed. The division of the percentage is made once per entry of the distribution,
  so only for a collection that is not empty: no entry's percentage is the Infinity
  that a division of a count by zero would give.
\<close>

theorem processAnalytics_empty_collection:
  "processAnalytics toLocaleDateString getTime [] =
     \<lparr>topicDistribution = [], articlesByDate = Some [], wordFrequency = Some [],
      recentArticles = []\<rparr>
   \<and> (\<forall>entry\<in>set (distribution data). 0 < length data \<and> percentage entry \<noteq> Infinity)"
proof -
  have "processAnalytics toLocaleDateString getTime [] =
     \<lparr>topicDistribution = [], articlesByDate = Some [], wordFrequency = Some [],
      recentArticles = []\<rparr>"
    by (simp add: processAnalytics_def distribution_def byDate_def topWords_def words_def
        count_keys_Nil object_entries_Nil sort_by_number_def)
  then show ?thesis using distribution_nonempty by blast
qed

theorem processAnalytics_empty_collection_witness:
  "processAnalytics (\<lambda>s. ''Invalid Date'') (\<lambda>s. None) [] =
     \<lparr>topicDistribution = [], articlesByDate = Some [], wordFrequency = Some [],
      recentArticles = []\<rparr>
   \<and> length ten_articles = 10
   \<and> list_all (\<lambda>entry. percentage entry \<noteq> Infinity) (distribution ten_articles)"
proof -
  have "length ten_articles = 10" by (simp add: ten_articles_def)
  then show ?thesis
    using processAnalytics_empty_collection[of "\<lambda>s. ''Invalid Date''" "\<lambda>s. None" ten_articles]
    by (simp add: list_all_iff)
qed


section \<open>Word frequency\<close>

text \<open>
  The pieces of a split consist of word characters, and so do the words, each of
  which is longer than two characters and no stopword.
\<close>

lemma split_nonword_nonempty [simp]: "split_nonword s \<noteq> []"
  by (induction s rule: split_nonword.induct) (auto split: list.splits)

lemma split_nonword_pieces: "w \<in> set (split_nonword s) \<Longrightarrow> list_all is_word_char w"
proof (induction s arbitrary: w rule: split_nonword.induct)
  case 1
  then show ?case by simp
next
  case (2 c cs)
  show ?case
  proof (cases "is_word_char c")
    case True
    obtain p ps where ps: "split_nonword cs = p # ps"
      using split_nonword_nonempty[of cs] by (cases "split_nonword cs") auto
    with "2.prems" True have "w = c # p \<or> w \<in> set ps" by simp
    then show ?thesis
    proof
      assume "w = c # p"
      moreover have "list_all is_word_char p" using "2.IH"(1)[OF True, of p] ps by simp
      ultimately show ?thesis using True by simp
    next
      assume "w \<in> set ps"
      then show ?thesis using "2.IH"(1)[OF True, of w] ps by simp
    qed
  next
    case False
    with "2.prems" have "w = [] \<or> w \<in> set (split_nonword (dropWhile (\<lambda>x. \<not> is_word_char x) cs))"
      by simp
    then show ?thesis using "2.IH"(2)[OF False, of w] by auto
  qed
qed

lemma words_are_tokens:
  "w \<in> set (words data) \<Longrightarrow> 2 < length w \<and> w \<notin> set stopwords \<and> list_all is_word_char w"
  by (auto simp: words_def dest: split_nonword_pieces)

lemma words_titles:
  "words data =
     filter (\<lambda>w. 2 < length w \<and> w \<notin> set stopwords)
       (concat (map (\<lambda>t. split_nonword (toLowerCase t)) (map title data)))"
  by (simp add: words_def comp_def)

lemma ai_words:
  "filter (\<lambda>w. 2 < length w \<and> w \<notin> set stopwords)
     (concat (map (\<lambda>t. split_nonword (toLowerCase t))
        [''AI raises funding for AI'', ''AI product launch'']))
   = [''raises'', ''funding'', ''product'', ''launch'']"
  by code_simp

lemma ai_top:
  "topWords [''raises'', ''funding'', ''product'', ''launch''] =
     Some [\<lparr>word = ''raises'', word_count = Count 1\<rparr>, \<lparr>word = ''funding'', word_count = Count 1\<rparr>,
           \<lparr>word = ''product'', word_count = Count 1\<rparr>, \<lparr>word = ''launch'', word_count = Count 1\<rparr>]"
  by code_simp

lemma ranked_words_props:
  "mset (ranked_words ws) = mset (word_table ws)"
  "sorted_wrt (\<lambda>a b. numeric_count (word_count b) \<le> numeric_count (word_count a)) (ranked_words ws)"
  "filter (\<lambda>e. word_count e = c) (ranked_words ws) = filter (\<lambda>e. word_count e = c) (word_table ws)"
proof -
  let ?K = "\<lambda>e. - int (numeric_count (word_count e))"
  show "mset (ranked_words ws) = mset (word_table ws)"
    by (simp add: ranked_words_def)
  have "sorted (map ?K (ranked_words ws))"
    unfolding ranked_words_def by (rule sorted_sort_key)
  then show "sorted_wrt (\<lambda>a b. numeric_count (word_count b) \<le> numeric_count (word_count a)) (ranked_words ws)"
    by (simp add: sorted_map)
  have all_counts: "\<And>e. e \<in> set (word_table ws) \<Longrightarrow> \<exists>n. word_count e = Count n"
    by (auto simp: word_table_def)
  show "filter (\<lambda>e. word_count e = c) (ranked_words ws) = filter (\<lambda>e. word_count e = c) (word_table ws)"
  proof (cases c)
    case (Count n)
    have eqv: "(word_count e = c) = (?K e = - int n)" if "e \<in> set (word_table ws)" for e
    proof -
      from that obtain m where "word_count e = Count m" using all_counts by blast
      then show ?thesis by (simp add: numeric_count_def Count)
    qed
    have "filter (\<lambda>e. word_count e = c) (ranked_words ws) = filter (\<lambda>e. ?K e = - int n) (ranked_words ws)"
      by (rule filter_cong) (simp_all add: eqv ranked_words_def)
    also have "\<dots> = filter (\<lambda>e. ?K e = - int n) (word_table ws)"
      unfolding ranked_words_def by (rule sort_key_stable)
    also have "\<dots> = filter (\<lambda>e. word_count e = c) (word_table ws)"
      by (rule filter_cong) (simp_all add: eqv)
    finally show ?thesis .
  next
    case (NativeText f n)
    have ne: "word_count e \<noteq> c" if "e \<in> set (word_table ws)" for e
      using all_counts[OF that] NativeText by auto
    have "filter (\<lambda>e. word_count e = c) (ranked_words ws) = []"
      using ne by (simp add: filter_empty_conv ranked_words_def)
    moreover have "filter (\<lambda>e. word_count e = c) (word_table ws) = []"
      using ne by (simp add: filter_empty_conv)
    ultimately show ?thesis by simp
  qed
qed

text \<open>
  A word that is an array index is listed before the words met earlier, and with the
  word \<open>constructor\<close> a count is a string and the comparator of the sort gives NaN.
\<close>

lemma array_index_first:
  "topWords (words [titled ''Apple plans 2025 launch'']) =
     Some [\<lparr>word = ''2025'', word_count = Count 1\<rparr>, \<lparr>word = ''apple'', word_count = Count 1\<rparr>,
           \<lparr>word = ''plans'', word_count = Count 1\<rparr>, \<lparr>word = ''launch'', word_count = Count 1\<rparr>]"
  by code_simp

lemma constructor_word:
  "topWords (words [titled ''Java constructor syntax'', titled ''Java release'']) = None"
  by code_simp

text \<open>
  Claim C3, as stated: for the titles \<open>AI raises funding for AI\<close> and
  \<open>AI product launch\<close> the first result is the word \<open>ai\<close> with count 3. It is not:
  \<open>ai\<close> has length 2 and is dropped.
\<close>

theorem topWords_example_not_ai:
  "map_option (take 1) (topWords (words ai_titles)) \<noteq> Some [\<lparr>word = ''ai'', word_count = Count 3\<rparr>]"
  by code_simp

text \<open>
  Claim C3, amended. The words are the pieces of the case-folded titles between the
  runs of non-word characters, without those of length at most 2 and the stopwords.
  When none of them is an array index or the name of a property of
  \<open>Object.prototype\<close>, the result is the first five entries of \<open>ranked_words\<close>: the
  table of the distinct words with their numbers of occurrences in all titles, which
  \<open>ranked_words\<close> permutes into descending order of the numbers, keeping the words
  of equal number in the order of their first occurrence. For the two titles above
  the words are \<open>raises\<close>, \<open>funding\<close>, \<open>product\<close> and \<open>launch\<close>, and the result lists
  them in this order with count 1 each.
\<close>

theorem topWords_ranking:
  "((\<forall>w\<in>set (words data). plain_key w) \<longrightarrow>
       topWords (words data) = Some (take 5 (ranked_words (words data))))
   \<and> mset (ranked_words (words data)) = mset (word_table (words data))
   \<and> sorted_wrt (\<lambda>a b. numeric_count (word_count b) \<le> numeric_count (word_count a))
        (ranked_words (words data))
   \<and> (\<forall>c. filter (\<lambda>e. word_count e = c) (ranked_words (words data))
            = filter (\<lambda>e. word_count e = c) (word_table (words data)))
   \<and> (map title data = [''AI raises funding for AI'', ''AI product launch''] \<longrightarrow>
        words data = [''raises'', ''funding'', ''product'', ''launch'']
        \<and> topWords (words data) =
            Some [\<lparr>word = ''raises'', word_count = Count 1\<rparr>,
                  \<lparr>word = ''funding'', word_count = Count 1\<rparr>,
                  \<lparr>word = ''product'', word_count = Count 1\<rparr>,
                  \<lparr>word = ''launch'', word_count = Count 1\<rparr>])"
proof -
  have example: "words data = [''raises'', ''funding'', ''product'', ''launch'']"
    if "map title data = [''AI raises funding for AI'', ''AI product launch'']"
    unfolding words_titles that by (rule ai_words)
  show ?thesis
    using topWords_plain[of "words data"] ranked_words_props[where ws = "words data"]
      example ai_top
    by auto
qed

theorem topWords_ranking_witness:
  "words tech_titles = [''apple'', ''launches'', ''new'', ''phone'', ''google'', ''launches'',
       ''search'', ''update'', ''apple'', ''google'', ''face'', ''lawsuit'', ''tesla'', ''recalls'', ''cars'']
   \<and> topWords (words tech_titles) =
       Some [\<lparr>word = ''apple'', word_count = Count 2\<rparr>, \<lparr>word = ''launches'', word_count = Count 2\<rparr>,
             \<lparr>word = ''google'', word_count = Count 2\<rparr>, \<lparr>word = ''new'', word_count = Count 1\<rparr>,
             \<lparr>word = ''phone'', word_count = Count 1\<rparr>]"
proof -
  have w: "words tech_titles = [''apple'', ''launches'', ''new'', ''phone'', ''google'', ''launches'',
       ''search'', ''update'', ''apple'', ''google'', ''face'', ''lawsuit'', ''tesla'', ''recalls'', ''cars'']"
    by code_simp
  have p: "\<forall>w\<in>set (words tech_titles). plain_key w"
    unfolding w by code_simp
  have r: "take 5 (ranked_words (words tech_titles)) =
       [\<lparr>word = ''apple'', word_count = Count 2\<rparr>, \<lparr>word = ''launches'', word_count = Count 2\<rparr>,
             \<lparr>word = ''google'', word_count = Count 2\<rparr>, \<lparr>word = ''new'', word_count = Count 1\<rparr>,
             \<lparr>word = ''phone'', word_count = Count 1\<rparr>]"
    unfolding w by code_simp
  show ?thesis using topWords_ranking[of tech_titles] p r w by simp
qed


section \<open>Double-precision arithmetic\<close>









section \<open>Topic percentages\<close>






























section \<open>Articles by date\<close>

lemma count_list_map_filter: "count_list (map f xs) k = length (filter (\<lambda>x. f x = k) xs)"
  by (induction xs) auto

text \<open>
  The buckets are sorted by the time values that \<open>Date\<close> reads back from their
  display strings. Let \<open>day\<close> give the calendar date of a published date. On a
  collection where the display strings of two articles are equal exactly when their
  calendar dates are, every display string has a time value, the display string of an
  earlier calendar date has the smaller time value, and no display string is an array
  index or the name of a property of \<open>Object.prototype\<close>, the sort puts the buckets
  in the order of the calendar dates.
\<close>

lemma byDate_sorted_if_read_back:
  fixes toLocaleDateString :: "string \<Rightarrow> string" and getTime :: "string \<Rightarrow> int option"
    and day :: "string \<Rightarrow> int"
  assumes valid: "\<forall>a\<in>set data. getTime (toLocaleDateString (published_date a)) \<noteq> None"
    and same: "\<forall>a\<in>set data. \<forall>b\<in>set data.
        (toLocaleDateString (published_date a) = toLocaleDateString (published_date b))
          = (day (published_date a) = day (published_date b))"
    and order: "\<forall>a\<in>set data. \<forall>b\<in>set data. day (published_date a) < day (published_date b) \<longrightarrow>
        the (getTime (toLocaleDateString (published_date a)))
          < the (getTime (toLocaleDateString (published_date b)))"
    and plain: "\<forall>a\<in>set data. plain_key (toLocaleDateString (published_date a))"
  shows "\<exists>reps. set reps \<subseteq> set data
     \<and> map (\<lambda>a. day (published_date a)) reps
         = sorted_list_of_set ((\<lambda>a. day (published_date a)) ` set data)
     \<and> byDate toLocaleDateString getTime data =
         Some (drop (length reps - 7)
           (map (\<lambda>a. \<lparr>date = toLocaleDateString (published_date a),
                       date_count = Count (length (filter
                           (\<lambda>b. day (published_date b) = day (published_date a)) data))\<rparr>)
              reps))"
proof -
  define F where "F a = toLocaleDateString (published_date a)" for a :: NewsArticle
  define D where "D a = day (published_date a)" for a :: NewsArticle
  define K where "K a = the (getTime (F a))" for a
  define keys where "keys = map F data"
  define E where "E k = \<lparr>date = k, date_count = Count (count_list keys k)\<rparr>" for k
  define days where "days = sorted_list_of_set (D ` set data)"
  define rep where "rep d = (SOME a. a \<in> set data \<and> D a = d)" for d
  define reps where "reps = map rep days"
  have same': "(F a = F b) = (D a = D b)" if "a \<in> set data" "b \<in> set data" for a b
    using same that by (simp add: F_def D_def)
  have order': "K a < K b" if "a \<in> set data" "b \<in> set data" "D a < D b" for a b
    using order that by (simp add: F_def D_def K_def)
  have set_days: "set days = D ` set data" and sorted_days: "sorted_wrt (<) days"
    by (simp_all add: days_def)
  have rep: "rep d \<in> set data \<and> D (rep d) = d" if "d \<in> set days" for d
  proof -
    from that set_days obtain a where "a \<in> set data \<and> D a = d" by auto
    then show ?thesis unfolding rep_def by (rule someI)
  qed
  have reps_data: "set reps \<subseteq> set data"
    using rep by (auto simp: reps_def)
  have reps_days: "map D reps = days"
    unfolding reps_def using rep by (simp add: map_idI)
  \<comment> \<open>the counting object and its entries\<close>
  have plain_keys: "\<forall>k\<in>set keys. plain_key k"
    using plain by (auto simp: keys_def F_def)
  have ck: "count_keys keys = map (\<lambda>k. (k, Count (count_list keys k))) (first_occurrences keys)"
    using plain_keys by (rule count_keys_plain)
  have "\<forall>p\<in>set (count_keys keys). \<not> is_array_index (fst p)"
    unfolding ck using plain_keys by (auto simp: plain_key_def)
  then have oe: "object_entries (count_keys keys) = count_keys keys"
    by (rule object_entries_plain)
  have entries: "map (\<lambda>entry. \<lparr>date = fst entry, date_count = snd entry\<rparr>)
      (object_entries (count_keys keys)) = map E (first_occurrences keys)"
    by (simp only: oe) (simp add: ck E_def comp_def)
  \<comment> \<open>the buckets in chronological order\<close>
  have count: "count_list keys (F a) = length (filter (\<lambda>b. D b = D a) data)" if "a \<in> set data" for a
  proof -
    have "filter (\<lambda>b. F b = F a) data = filter (\<lambda>b. D b = D a) data"
      by (rule filter_cong) (simp_all add: same' that)
    then show ?thesis by (simp add: keys_def count_list_map_filter)
  qed
  have target: "map (\<lambda>a. \<lparr>date = F a, date_count = Count (length (filter (\<lambda>b. D b = D a) data))\<rparr>) reps
      = map E (map F reps)"
    using reps_data by (auto simp: E_def count)
  have set_F_reps: "set (map F reps) = set keys"
  proof
    show "set (map F reps) \<subseteq> set keys" using reps_data by (auto simp: keys_def)
    show "set keys \<subseteq> set (map F reps)"
    proof
      fix k assume "k \<in> set keys"
      then obtain a where a: "a \<in> set data" "k = F a" by (auto simp: keys_def)
      then have d: "D a \<in> set days" using set_days by simp
      from rep[OF d] a have "F (rep (D a)) = k" by (simp add: same')
      moreover have "rep (D a) \<in> set reps" using d by (simp add: reps_def)
      ultimately show "k \<in> set (map F reps)" by force
    qed
  qed
  have "inj_on (\<lambda>d. F (rep d)) (set days)"
  proof (rule inj_onI)
    fix d e assume "d \<in> set days" "e \<in> set days" "F (rep d) = F (rep e)"
    then show "d = e" using rep[of d] rep[of e] same'[of "rep d" "rep e"] by simp
  qed
  moreover have "distinct days" by (simp add: days_def)
  ultimately have distinct_F_reps: "distinct (map F reps)"
    by (simp add: reps_def distinct_map comp_def)
  have mset_keys: "mset (first_occurrences keys) = mset (map F reps)"
    using distinct_F_reps set_F_reps
    by (subst set_eq_iff_mset_eq_distinct[symmetric]) simp_all
  have inj: "inj_on (\<lambda>e. the (getTime (date e))) (set (map E (first_occurrences keys)))"
  proof (rule inj_onI)
    fix x y
    assume "x \<in> set (map E (first_occurrences keys))" "y \<in> set (map E (first_occurrences keys))"
      and eq: "the (getTime (date x)) = the (getTime (date y))"
    then obtain a b where a: "a \<in> set data" "x = E (F a)" and b: "b \<in> set data" "y = E (F b)"
      by (auto simp: keys_def)
    have "K a = K b" using eq a b by (simp add: K_def E_def)
    then have "D a = D b" using order'[OF a(1) b(1)] order'[OF b(1) a(1)] by force
    then have "F a = F b" using same'[OF a(1) b(1)] by simp
    then show "x = y" using a b by simp
  qed
  have "sorted_wrt (\<lambda>d e. K (rep d) \<le> K (rep e)) days"
  proof (rule sorted_wrt_mono_rel[OF _ sorted_days])
    fix d e assume "d \<in> set days" "e \<in> set days" "d < e"
    then show "K (rep d) \<le> K (rep e)"
      using rep[of d] rep[of e] order'[of "rep d" "rep e"] by simp
  qed
  then have sorted: "sorted (map (\<lambda>e. the (getTime (date e))) (map E (map F reps)))"
    by (simp add: reps_def sorted_map comp_def E_def K_def)
  have sk: "sort_key (\<lambda>e. the (getTime (date e))) (map E (first_occurrences keys)) = map E (map F reps)"
  proof (rule sort_key_inj_key_eq[OF _ inj sorted])
    have "image_mset E (mset (first_occurrences keys)) = image_mset E (mset (map F reps))"
      by (simp only: mset_keys)
    then show "mset (map E (first_occurrences keys)) = mset (map E (map F reps))"
      by (simp only: mset_map)
  qed
  have "\<forall>e\<in>set (map E (first_occurrences keys)). getTime (date e) \<noteq> None"
    using valid by (auto simp: keys_def E_def F_def)
  then have sbn: "sort_by_number (\<lambda>a. getTime (date a)) (map E (first_occurrences keys))
      = Some (map E (map F reps))"
    by (simp add: sort_by_number_total sk)
  have keys': "map (\<lambda>article. toLocaleDateString (published_date article)) data = keys"
    by (simp add: keys_def F_def)
  have "byDate toLocaleDateString getTime data =
      Some (drop (length reps - 7) (map E (map F reps)))"
    unfolding byDate_def Let_def keys' entries sbn by simp
  then have "byDate toLocaleDateString getTime data =
      Some (drop (length reps - 7)
        (map (\<lambda>a. \<lparr>date = F a, date_count = Count (length (filter (\<lambda>b. D b = D a) data))\<rparr>) reps))"
    by (simp only: target)
  then show ?thesis
    using reps_data reps_days
    unfolding F_def D_def days_def by blast
qed

text \<open>
  Claim C9. The comparator of the sort reads every display string back with
  \<open>new Date\<close>, which takes the first of three numbers between slashes for the month.
  In a browser of a day-first locale such as en-GB the display string of 1 February
  2024 is \<open>01/02/2024\<close>, which is read back as 2 January, and that of 3 January 2024
  is \<open>03/01/2024\<close>, which is read back as 1 March. In every such browser the time
  series of two articles published on 1 February and on 3 January 2024 has the bucket
  of 1 February first and that of 3 January second, whatever the order of the two
  articles: the time series is not in chronological order, as the claim says it is.
\<close>

theorem byDate_day_first_not_chronological:
  fixes toLocaleDateString :: "string \<Rightarrow> string" and getTime :: "string \<Rightarrow> int option"
  assumes feb: "toLocaleDateString ''2024-02-01'' = ''01/02/2024''"
    and jan: "toLocaleDateString ''2024-01-03'' = ''03/01/2024''"
    and feb_read: "getTime ''01/02/2024'' = Some second_of_january"
    and jan_read: "getTime ''03/01/2024'' = Some first_of_march"
    and earlier: "second_of_january < first_of_march"
  shows "byDate toLocaleDateString getTime
           [published_on ''2024-02-01'', published_on ''2024-01-03'']
         = Some [\<lparr>date = ''01/02/2024'', date_count = Count 1\<rparr>,
                 \<lparr>date = ''03/01/2024'', date_count = Count 1\<rparr>]
     \<and> byDate toLocaleDateString getTime
           [published_on ''2024-01-03'', published_on ''2024-02-01'']
         = Some [\<lparr>date = ''01/02/2024'', date_count = Count 1\<rparr>,
                 \<lparr>date = ''03/01/2024'', date_count = Count 1\<rparr>]"
proof -
  have keys: "map (\<lambda>article. toLocaleDateString (published_date article))
        [published_on ''2024-02-01'', published_on ''2024-01-03''] = [''01/02/2024'', ''03/01/2024'']"
      "map (\<lambda>article. toLocaleDateString (published_date article))
        [published_on ''2024-01-03'', published_on ''2024-02-01''] = [''03/01/2024'', ''01/02/2024'']"
    by (simp_all add: published_on_def feb jan)
  have entries: "object_entries (count_keys [''01/02/2024'', ''03/01/2024''])
        = [(''01/02/2024'', Count 1), (''03/01/2024'', Count 1)]"
      "object_entries (count_keys [''03/01/2024'', ''01/02/2024''])
        = [(''03/01/2024'', Count 1), (''01/02/2024'', Count 1)]"
    by code_simp+
  show ?thesis
    unfolding byDate_def Let_def keys entries
    using earlier by (simp add: sort_by_number_def feb_read jan_read)
qed

theorem byDate_day_first_not_chronological_witness:
  "byDate
     (\<lambda>s. if s = ''2024-02-01'' then ''01/02/2024''
          else if s = ''2024-01-03'' then ''03/01/2024'' else ''Invalid Date'')
     (\<lambda>k. if k = ''01/02/2024'' then Some 1704153600000
          else if k = ''03/01/2024'' then Some 1709251200000 else None)
     [published_on ''2024-02-01'', published_on ''2024-01-03'']
   = Some [\<lparr>date = ''01/02/2024'', date_count = Count 1\<rparr>,
           \<lparr>date = ''03/01/2024'', date_count = Count 1\<rparr>]"
  using byDate_day_first_not_chronological
    [of "\<lambda>s. if s = ''2024-02-01'' then ''01/02/2024''
             else if s = ''2024-01-03'' then ''03/01/2024'' else ''Invalid Date''"
        "\<lambda>k. if k = ''01/02/2024'' then Some 1704153600000
             else if k = ''03/01/2024'' then Some 1709251200000 else None"
        1704153600000 1709251200000]
  by simp

end
